theory Spec2Isabelle
  imports Main
begin

section \<open>The grouped-aggregation facade (polars/internals/lazyframe/groupby.py)\<close>

subsection \<open>Python values and errors\<close>

text \<open>
  The argument of \<open>LazyGroupBy.agg\<close> is an arbitrary Python object. The constructors
  below are the shapes the guard of \<open>agg\<close> can tell apart: an expression (an instance of
  \<open>Expr\<close> or of a subclass, opaque, of type \<open>'e\<close>), a string, an integer, \<open>None\<close>, a
  list, a tuple, a sequence of any other type (given by its type name and its elements)
  and an object of any other type that is not a sequence (given by its type name).
\<close>

datatype 'e pyobj =
    ExprObj 'e
  | StrObj string
  | IntObj int
  | NoneObj
  | ListObj "'e pyobj list"
  | TupleObj "'e pyobj list"
  | OtherSeqObj string "'e pyobj list"
  | OtherObj string

text \<open>
  \<open>TypeError\<close> is the exception \<open>agg\<close> raises itself; \<open>EngineError\<close> stands for any
  failure the engine raises, which the facade lets through unchanged.
\<close>

datatype pyerror = TypeError string | EngineError string

definition quote :: "string \<Rightarrow> string" where
  "quote s = [CHR 0x27] @ s @ [CHR 0x27]"

text \<open>What the f-string prints for \<open>type(aggs)\<close>.\<close>

fun type_repr :: "'e pyobj \<Rightarrow> string" where
  "type_repr (ExprObj _) = ''<class '' @ quote ''polars.internals.expr.expr.Expr'' @ ''>''"
| "type_repr (StrObj _) = ''<class '' @ quote ''str'' @ ''>''"
| "type_repr (IntObj _) = ''<class '' @ quote ''int'' @ ''>''"
| "type_repr NoneObj = ''<class '' @ quote ''NoneType'' @ ''>''"
| "type_repr (ListObj _) = ''<class '' @ quote ''list'' @ ''>''"
| "type_repr (TupleObj _) = ''<class '' @ quote ''tuple'' @ ''>''"
| "type_repr (OtherSeqObj t _) = ''<class '' @ quote t @ ''>''"
| "type_repr (OtherObj t) = ''<class '' @ quote t @ ''>''"

text \<open>\<open>isinstance(aggs, pli.Expr)\<close>.\<close>

fun isinstance_Expr :: "'e pyobj \<Rightarrow> bool" where
  "isinstance_Expr (ExprObj _) = True"
| "isinstance_Expr _ = False"

text \<open>
  \<open>polars.utils.is_expr_sequence\<close> is imported by groupby.py; its body is not in
  groupby.py. It is the check that \<open>agg\<close>'s annotation and error message name,
  \<open>Sequence[Expr]\<close>: the object is a sequence and each of its elements is an
  expression. No element is required, so the empty list and the empty tuple pass. A
  string is a sequence of one-character strings, none of them an expression, so only
  the empty string passes.
\<close>

fun is_expr_sequence :: "'e pyobj \<Rightarrow> bool" where
  "is_expr_sequence (ListObj xs) = list_all isinstance_Expr xs"
| "is_expr_sequence (TupleObj xs) = list_all isinstance_Expr xs"
| "is_expr_sequence (OtherSeqObj t xs) = list_all isinstance_Expr xs"
| "is_expr_sequence (StrObj s) = (s = [])"
| "is_expr_sequence _ = False"

text \<open>
  \<open>polars.internals.expr.ensure_list_of_pyexpr\<close> is imported by groupby.py; its body is
  not in groupby.py. On the objects that pass the guard of \<open>agg\<close> it gives the ordered
  list of expressions: one expression becomes a one-element list, a sequence keeps its
  elements in order, the empty string gives the empty list.
\<close>

fun exprs_of :: "'e pyobj list \<Rightarrow> 'e list" where
  "exprs_of [] = []"
| "exprs_of (ExprObj e # xs) = e # exprs_of xs"
| "exprs_of (_ # xs) = exprs_of xs"

fun ensure_list_of_pyexpr :: "'e pyobj \<Rightarrow> 'e list" where
  "ensure_list_of_pyexpr (ExprObj e) = [e]"
| "ensure_list_of_pyexpr (ListObj xs) = exprs_of xs"
| "ensure_list_of_pyexpr (TupleObj xs) = exprs_of xs"
| "ensure_list_of_pyexpr (OtherSeqObj t xs) = exprs_of xs"
| "ensure_list_of_pyexpr _ = []"

subsection \<open>The engine handle and the facade object\<close>

text \<open>
  \<open>PyLazyGroupBy\<close> is the engine's grouping handle. The facade only calls its four
  methods, so the handle is the record of these methods; each returns a logical plan
  \<open>'p\<close> or raises.
\<close>

record ('e, 'f, 'p) PyLazyGroupBy =
  lgb_agg :: "'e list \<Rightarrow> pyerror + 'p"
  lgb_head :: "int \<Rightarrow> pyerror + 'p"
  lgb_tail :: "int \<Rightarrow> pyerror + 'p"
  lgb_apply :: "'f \<Rightarrow> pyerror + 'p"

text \<open>The engine calls one facade operation makes, in order, with their arguments.\<close>

datatype ('e, 'f) engine_call =
    AggCall "'e list"
  | HeadCall int
  | TailCall int
  | ApplyCall 'f

text \<open>
  \<open>LazyGroupBy.__init__\<close> stores the handle and the lazy-frame class; of the class only
  \<open>_from_pyldf\<close> is used, which wraps a logical plan.
\<close>

record ('e, 'f, 'p, 'ldf) LazyGroupBy =
  lgb :: "('e, 'f, 'p) PyLazyGroupBy"
  lazyframe_class :: "'p \<Rightarrow> 'ldf"

text \<open>
  A raise inside the engine call leaves the method before \<open>_from_pyldf\<close> runs; a
  returned plan is wrapped.
\<close>

definition from_pyldf ::
  "('e, 'f, 'p, 'ldf) LazyGroupBy \<Rightarrow> pyerror + 'p \<Rightarrow> pyerror + 'ldf" where
  "from_pyldf self r = (case r of Inl err \<Rightarrow> Inl err | Inr p \<Rightarrow> Inr (lazyframe_class self p))"

subsection \<open>The four operations\<close>

text \<open>
  Each operation returns its result (or the exception raised) together with the engine
  calls it made.
\<close>

definition agg ::
  "('e, 'f, 'p, 'ldf) LazyGroupBy \<Rightarrow> 'e pyobj \<Rightarrow> (pyerror + 'ldf) \<times> ('e, 'f) engine_call list" where
  "agg self aggs =
     (if \<not> (isinstance_Expr aggs \<or> is_expr_sequence aggs)
      then (Inl (TypeError (''expected '' @ quote ''Expr | Sequence[Expr]'' @ '', got ''
                             @ quote (type_repr aggs))), [])
      else (let pyexprs = ensure_list_of_pyexpr aggs
            in (from_pyldf self (lgb_agg (lgb self) pyexprs), [AggCall pyexprs])))"

definition head ::
  "('e, 'f, 'p, 'ldf) LazyGroupBy \<Rightarrow> int \<Rightarrow> (pyerror + 'ldf) \<times> ('e, 'f) engine_call list" where
  "head self n = (from_pyldf self (lgb_head (lgb self) n), [HeadCall n])"

definition tail ::
  "('e, 'f, 'p, 'ldf) LazyGroupBy \<Rightarrow> int \<Rightarrow> (pyerror + 'ldf) \<times> ('e, 'f) engine_call list" where
  "tail self n = (from_pyldf self (lgb_tail (lgb self) n), [TailCall n])"

definition apply' ::
  "('e, 'f, 'p, 'ldf) LazyGroupBy \<Rightarrow> 'f \<Rightarrow> (pyerror + 'ldf) \<times> ('e, 'f) engine_call list" where
  "apply' self f = (from_pyldf self (lgb_apply (lgb self) f), [ApplyCall f])"

subsection \<open>A concrete engine\<close>

text \<open>
  An engine for concrete runs of the facade: aggregating returns the number of
  expressions as its plan, the grouped head and tail reject a negative count, and the
  lazy-frame class adds 100 to a plan.
\<close>

definition demo_lgb :: "(nat, nat, int) PyLazyGroupBy" where
  "demo_lgb =
     \<lparr>lgb_agg = (\<lambda>es. Inr (int (length es))),
      lgb_head = (\<lambda>n. if n < 0 then Inl (EngineError ''negative count'') else Inr n),
      lgb_tail = (\<lambda>n. if n < 0 then Inl (EngineError ''negative count'') else Inr (2 * n)),
      lgb_apply = (\<lambda>f. Inr 0)\<rparr>"

definition demo_self :: "(nat, nat, int, int) LazyGroupBy" where
  "demo_self = \<lparr>lgb = demo_lgb, lazyframe_class = (\<lambda>p. p + 100)\<rparr>"

section \<open>The temporal codec: dates as days since the epoch\<close>

text \<open>
  Modelled from the spec: \<open>polars.utils._date_to_pl_date\<close> is not among the sources (only
  its test in tests/test_utils.py is). The spec describes it as exact proleptic
  Gregorian calendar arithmetic: the signed number of days from 1970-01-01 to the date.
  The day count below is the usual one: the days before the year, the days before the
  month in that year, and the day of the month.
\<close>

record CalendarDate =
  year :: int
  month :: int
  day :: int

definition is_leap :: "int \<Rightarrow> bool" where
  "is_leap y = (y mod 4 = 0 \<and> (y mod 100 \<noteq> 0 \<or> y mod 400 = 0))"

definition days_in_month :: "int \<Rightarrow> int \<Rightarrow> int" where
  "days_in_month y m =
     (if m = 2 then (if is_leap y then 29 else 28)
      else if m = 4 \<or> m = 6 \<or> m = 9 \<or> m = 11 then 30 else 31)"

definition days_before_year :: "int \<Rightarrow> int" where
  "days_before_year y = (let y1 = y - 1 in y1 * 365 + y1 div 4 - y1 div 100 + y1 div 400)"

definition days_before_month :: "int \<Rightarrow> int \<Rightarrow> int" where
  "days_before_month y m = sum_list (map (days_in_month y) [1..m - 1])"

definition to_ordinal :: "CalendarDate \<Rightarrow> int" where
  "to_ordinal d = days_before_year (year d) + days_before_month (year d) (month d) + day d"

definition EpochDate :: CalendarDate where
  "EpochDate = \<lparr>year = 1970, month = 1, day = 1\<rparr>"

definition dateToEpochDays :: "CalendarDate \<Rightarrow> int" where
  "dateToEpochDays d = to_ordinal d - to_ordinal EpochDate"

text \<open>
  The calendar itself, to state what exact calendar arithmetic means: the dates that
  exist, the day after and the day before a date, and the order of dates.
\<close>

definition valid_date :: "CalendarDate \<Rightarrow> bool" where
  "valid_date d = (1 \<le> month d \<and> month d \<le> 12 \<and> 1 \<le> day d \<and> day d \<le> days_in_month (year d) (month d))"

definition next_day :: "CalendarDate \<Rightarrow> CalendarDate" where
  "next_day d =
     (if day d < days_in_month (year d) (month d) then d\<lparr>day := day d + 1\<rparr>
      else if month d < 12 then d\<lparr>month := month d + 1, day := 1\<rparr>
      else \<lparr>year = year d + 1, month = 1, day = 1\<rparr>)"

definition prev_day :: "CalendarDate \<Rightarrow> CalendarDate" where
  "prev_day d =
     (if 1 < day d then d\<lparr>day := day d - 1\<rparr>
      else if 1 < month d then d\<lparr>month := month d - 1, day := days_in_month (year d) (month d - 1)\<rparr>
      else \<lparr>year = year d - 1, month = 12, day = 31\<rparr>)"

definition date_less :: "CalendarDate \<Rightarrow> CalendarDate \<Rightarrow> bool" where
  "date_less a b =
     (year a < year b \<or> (year a = year b \<and> (month a < month b \<or> (month a = month b \<and> day a < day b))))"


definition year_length :: "int \<Rightarrow> int" where
  "year_length y = (if is_leap y then 366 else 365)"

section \<open>Properties of the facade\<close>

lemma exprs_of_map_ExprObj: "exprs_of (map ExprObj es) = es"
  by (induction es) simp_all

lemma list_all_isinstance_Expr:
  "list_all isinstance_Expr xs \<Longrightarrow> xs = map ExprObj (exprs_of xs)"
proof (induction xs)
  case Nil
  then show ?case by simp
next
  case (Cons x xs)
  then show ?case by (cases x) simp_all
qed

lemma list_all_isinstance_Expr_map: "list_all isinstance_Expr (map ExprObj es)"
  by (induction es) simp_all

lemma isinstance_Expr_shape: "isinstance_Expr aggs \<Longrightarrow> \<exists>e. aggs = ExprObj e"
  by (cases aggs) simp_all

lemma is_expr_sequence_shape:
  assumes "is_expr_sequence aggs"
  shows "(\<exists>es. aggs = ListObj (map ExprObj es) \<or> aggs = TupleObj (map ExprObj es)
              \<or> (\<exists>t. aggs = OtherSeqObj t (map ExprObj es)))
         \<or> aggs = StrObj []"
proof (cases aggs)
  case (ListObj xs)
  with assms have "xs = map ExprObj (exprs_of xs)" by (simp add: list_all_isinstance_Expr)
  with ListObj show ?thesis by blast
next
  case (TupleObj xs)
  with assms have "xs = map ExprObj (exprs_of xs)" by (simp add: list_all_isinstance_Expr)
  with TupleObj show ?thesis by blast
next
  case (OtherSeqObj t xs)
  with assms have "xs = map ExprObj (exprs_of xs)" by (simp add: list_all_isinstance_Expr)
  with OtherSeqObj show ?thesis by blast
next
  case (StrObj s)
  with assms show ?thesis by simp
next
  case (ExprObj e)
  with assms show ?thesis by simp
next
  case (IntObj i)
  with assms show ?thesis by simp
next
  case NoneObj
  with assms show ?thesis by simp
next
  case (OtherObj t)
  with assms show ?thesis by simp
qed

lemma agg_accepts_list:
  "agg self (ListObj (map ExprObj es)) = (from_pyldf self (lgb_agg (lgb self) es), [AggCall es])"
  by (simp add: agg_def list_all_isinstance_Expr_map exprs_of_map_ExprObj)

lemma agg_accepts_tuple:
  "agg self (TupleObj (map ExprObj es)) = (from_pyldf self (lgb_agg (lgb self) es), [AggCall es])"
  by (simp add: agg_def list_all_isinstance_Expr_map exprs_of_map_ExprObj)

lemma from_pyldf_Inr: "from_pyldf self (Inr p) = Inr (lazyframe_class self p)"
  by (simp add: from_pyldf_def)

lemma from_pyldf_Inl: "from_pyldf self (Inl err) = Inl err"
  by (simp add: from_pyldf_def)

lemma from_pyldf_Inl_only: "from_pyldf self r = Inl err \<Longrightarrow> r = Inl err"
  by (cases r) (simp_all add: from_pyldf_def)

text \<open>
  C1, as the code has it. An argument of \<open>agg\<close> that is neither a single expression nor
  a sequence whose elements are all expressions, and that is not the empty string, makes
  \<open>agg\<close> raise \<open>TypeError\<close>; the message ends with the type of the object received,
  and no engine call is made. A sequence of expressions needs no element: every list,
  tuple or other sequence of expressions, the empty one included, is forwarded in order
  in one engine call.
\<close>

theorem agg_rejects_non_sequences:
  assumes "\<not> (\<exists>e. aggs = ExprObj e)"
    and "\<not> (\<exists>es. aggs = ListObj (map ExprObj es) \<or> aggs = TupleObj (map ExprObj es)
                  \<or> (\<exists>t. aggs = OtherSeqObj t (map ExprObj es)))"
    and "aggs \<noteq> StrObj []"
  shows "agg self aggs =
           (Inl (TypeError (''expected '' @ quote ''Expr | Sequence[Expr]'' @ '', got ''
                             @ quote (type_repr aggs))), [])
         \<and> agg self (ListObj (map ExprObj es)) =
             (from_pyldf self (lgb_agg (lgb self) es), [AggCall es])
         \<and> agg self (TupleObj (map ExprObj es)) =
             (from_pyldf self (lgb_agg (lgb self) es), [AggCall es])"
proof -
  from assms(1) have "\<not> isinstance_Expr aggs"
    using isinstance_Expr_shape by blast
  moreover from assms(2,3) have "\<not> is_expr_sequence aggs"
    using is_expr_sequence_shape by blast
  ultimately have "agg self aggs =
           (Inl (TypeError (''expected '' @ quote ''Expr | Sequence[Expr]'' @ '', got ''
                             @ quote (type_repr aggs))), [])"
    by (simp add: agg_def)
  then show ?thesis
    by (simp only: agg_accepts_list agg_accepts_tuple simp_thms)
qed

theorem agg_rejects_non_sequences_witness:
  "agg demo_self (StrObj ''foo'') =
      (Inl (TypeError (''expected '' @ quote ''Expr | Sequence[Expr]'' @ '', got ''
                        @ quote (''<class '' @ quote ''str'' @ ''>''))), [])
   \<and> agg demo_self (ListObj [ExprObj 1, IntObj 2]) =
      (Inl (TypeError (''expected '' @ quote ''Expr | Sequence[Expr]'' @ '', got ''
                        @ quote (''<class '' @ quote ''list'' @ ''>''))), [])
   \<and> agg demo_self (ListObj [ExprObj 1, ExprObj 2]) = (Inr 102, [AggCall [1, 2]])
   \<and> agg demo_self (TupleObj []) = (Inr 100, [AggCall []])"
proof -
  have n1: "\<not> (\<exists>es. StrObj ''foo'' = ListObj (map ExprObj es)
                 \<or> StrObj ''foo'' = TupleObj (map ExprObj es)
                 \<or> (\<exists>t. (StrObj ''foo'' :: nat pyobj) = OtherSeqObj t (map ExprObj es)))"
    by simp
  have n2: "\<not> (\<exists>es. ListObj [ExprObj 1, IntObj 2] = ListObj (map ExprObj es)
                 \<or> ListObj [ExprObj 1, IntObj 2] = TupleObj (map ExprObj es)
                 \<or> (\<exists>t. (ListObj [ExprObj 1, IntObj 2] :: nat pyobj) = OtherSeqObj t (map ExprObj es)))"
    by (simp add: Cons_eq_map_conv)
  have w: "from_pyldf demo_self (lgb_agg (lgb demo_self) [1, 2]) = Inr 102"
    "from_pyldf demo_self (lgb_agg (lgb demo_self) []) = Inr 100"
    by (simp_all add: demo_self_def demo_lgb_def from_pyldf_def)
  from agg_rejects_non_sequences [of "StrObj ''foo''" demo_self "[1, 2]", OF _ n1]
  have s: "agg demo_self (StrObj ''foo'') =
      (Inl (TypeError (''expected '' @ quote ''Expr | Sequence[Expr]'' @ '', got ''
                        @ quote (''<class '' @ quote ''str'' @ ''>''))), [])"
    and a: "agg demo_self (ListObj [ExprObj 1, ExprObj 2]) = (Inr 102, [AggCall [1, 2]])"
    using w by simp_all
  from agg_rejects_non_sequences [of "ListObj [ExprObj 1, IntObj 2]" demo_self "[]", OF _ n2]
  have l: "agg demo_self (ListObj [ExprObj 1, IntObj 2]) =
      (Inl (TypeError (''expected '' @ quote ''Expr | Sequence[Expr]'' @ '', got ''
                        @ quote (''<class '' @ quote ''list'' @ ''>''))), [])"
    and e: "agg demo_self (TupleObj []) = (Inr 100, [AggCall []])"
    using w by simp_all
  from s l a e show ?thesis by simp
qed

text \<open>
  C1, as the claim states it, fails at the empty list: \<open>agg\<close> does not raise, and the
  engine's grouped aggregate is called with the empty list of expressions.
\<close>

theorem agg_empty_list_counterexample:
  "agg demo_self (ListObj []) = (Inr 100, [AggCall []])"
  by (simp add: agg_def demo_self_def demo_lgb_def from_pyldf_def)

text \<open>
  C9. \<open>head\<close> and \<open>tail\<close> validate nothing: for every integer \<open>n\<close>, negative ones
  included, the only engine call is the grouped head (tail) with \<open>n\<close> itself, and the
  outcome is the engine's: a plan the engine returns is wrapped by the lazy-frame class,
  an exception the engine raises is the exception of \<open>head\<close> (\<open>tail\<close>), and there is
  no other exception.
\<close>

theorem head_tail_forward_n:
  "head self n = (from_pyldf self (lgb_head (lgb self) n), [HeadCall n])
   \<and> tail self n = (from_pyldf self (lgb_tail (lgb self) n), [TailCall n])
   \<and> (\<forall>p. lgb_head (lgb self) n = Inr p \<longrightarrow> fst (head self n) = Inr (lazyframe_class self p))
   \<and> (\<forall>p. lgb_tail (lgb self) n = Inr p \<longrightarrow> fst (tail self n) = Inr (lazyframe_class self p))
   \<and> (\<forall>err. lgb_head (lgb self) n = Inl err \<longrightarrow> fst (head self n) = Inl err)
   \<and> (\<forall>err. lgb_tail (lgb self) n = Inl err \<longrightarrow> fst (tail self n) = Inl err)
   \<and> (\<forall>err. fst (head self n) = Inl err \<longrightarrow> lgb_head (lgb self) n = Inl err)
   \<and> (\<forall>err. fst (tail self n) = Inl err \<longrightarrow> lgb_tail (lgb self) n = Inl err)"
proof -
  have h: "head self n = (from_pyldf self (lgb_head (lgb self) n), [HeadCall n])"
    by (simp add: head_def)
  have t: "tail self n = (from_pyldf self (lgb_tail (lgb self) n), [TailCall n])"
    by (simp add: tail_def)
  have hp: "fst (head self n) = Inr (lazyframe_class self p)" if "lgb_head (lgb self) n = Inr p" for p
    unfolding h fst_conv that by (rule from_pyldf_Inr)
  have tp: "fst (tail self n) = Inr (lazyframe_class self p)" if "lgb_tail (lgb self) n = Inr p" for p
    unfolding t fst_conv that by (rule from_pyldf_Inr)
  have he: "fst (head self n) = Inl err" if "lgb_head (lgb self) n = Inl err" for err
    unfolding h fst_conv that by (rule from_pyldf_Inl)
  have te: "fst (tail self n) = Inl err" if "lgb_tail (lgb self) n = Inl err" for err
    unfolding t fst_conv that by (rule from_pyldf_Inl)
  have hc: "lgb_head (lgb self) n = Inl err" if "fst (head self n) = Inl err" for err
    using that unfolding h fst_conv by (rule from_pyldf_Inl_only)
  have tc: "lgb_tail (lgb self) n = Inl err" if "fst (tail self n) = Inl err" for err
    using that unfolding t fst_conv by (rule from_pyldf_Inl_only)
  show ?thesis
    by (intro conjI allI impI; (rule h t | erule hp tp he te hc tc))
qed

theorem head_tail_forward_n_witness:
  "head demo_self (- 3) = (Inl (EngineError ''negative count''), [HeadCall (- 3)])
   \<and> tail demo_self (- 3) = (Inl (EngineError ''negative count''), [TailCall (- 3)])
   \<and> head demo_self 2 = (Inr 102, [HeadCall 2])
   \<and> tail demo_self 2 = (Inr 104, [TailCall 2])"
proof -
  note neg = head_tail_forward_n [of demo_self "- 3"]
  note pos = head_tail_forward_n [of demo_self 2]
  have h1: "head demo_self (- 3) = (Inl (EngineError ''negative count''), [HeadCall (- 3)])"
    unfolding neg [THEN conjunct1]
    by (simp add: demo_self_def demo_lgb_def from_pyldf_def)
  have t1: "tail demo_self (- 3) = (Inl (EngineError ''negative count''), [TailCall (- 3)])"
    unfolding neg [THEN conjunct2, THEN conjunct1]
    by (simp add: demo_self_def demo_lgb_def from_pyldf_def)
  have h2: "head demo_self 2 = (Inr 102, [HeadCall 2])"
    unfolding pos [THEN conjunct1]
    by (simp add: demo_self_def demo_lgb_def from_pyldf_def)
  have t2: "tail demo_self 2 = (Inr 104, [TailCall 2])"
    unfolding pos [THEN conjunct2, THEN conjunct1]
    by (simp add: demo_self_def demo_lgb_def from_pyldf_def)
  show ?thesis
    by (intro conjI) (rule h1 t1 h2 t2)+
qed

section \<open>Properties of the day count\<close>

lemma div_succ:
  fixes n k :: int
  assumes k: "0 < k"
  shows "(n + 1) div k = n div k + (if (n + 1) mod k = 0 then 1 else 0)"
proof (cases "(n + 1) mod k = 0")
  case True
  have "n = k * ((n + 1) div k - 1) + (k - 1)"
    using True mult_div_mod_eq [of k "n + 1"] by (simp add: algebra_simps)
  moreover have "0 \<le> k - 1" "k - 1 < k" using k by simp_all
  ultimately have "n div k = (n + 1) div k - 1"
    by (rule int_div_pos_eq)
  then show ?thesis using True by simp
next
  case False
  have b: "0 \<le> (n + 1) mod k" "(n + 1) mod k < k" using k by simp_all
  have "n = k * ((n + 1) div k) + ((n + 1) mod k - 1)"
    using mult_div_mod_eq [of k "n + 1"] by (simp add: algebra_simps)
  moreover have "0 \<le> (n + 1) mod k - 1" "(n + 1) mod k - 1 < k" using b False by simp_all
  ultimately have "n div k = (n + 1) div k"
    by (rule int_div_pos_eq)
  then show ?thesis using False by simp
qed





lemma days_before_year_Suc: "days_before_year (y + 1) = days_before_year y + year_length y"
proof -
  define q4 where "q4 = (y - 1) div 4"
  define q100 where "q100 = (y - 1) div 100"
  define q400 where "q400 = (y - 1) div 400"
  define l4 where "l4 = (y mod 4 = 0)"
  define l100 where "l100 = (y mod 100 = 0)"
  define l400 where "l400 = (y mod 400 = 0)"
  have a: "y div 4 = q4 + (if l4 then 1 else 0)"
    using div_succ [of 4 "y - 1"] by (simp only: q4_def l4_def diff_add_cancel)
  have b: "y div 100 = q100 + (if l100 then 1 else 0)"
    using div_succ [of 100 "y - 1"] by (simp only: q100_def l100_def diff_add_cancel)
  have c: "y div 400 = q400 + (if l400 then 1 else 0)"
    using div_succ [of 400 "y - 1"] by (simp only: q400_def l400_def diff_add_cancel)
  have i1: "l400 \<Longrightarrow> l100"
    unfolding l400_def l100_def mod_eq_0_iff_dvd
    by (rule dvd_trans [of 100 400 y]) simp_all
  have i2: "l100 \<Longrightarrow> l4"
    unfolding l4_def l100_def mod_eq_0_iff_dvd
    by (rule dvd_trans [of 4 100 y]) simp_all
  have lhs: "days_before_year (y + 1) = y * 365 + y div 4 - y div 100 + y div 400"
    by (simp only: days_before_year_def Let_def add_diff_cancel_right')
  have rhs: "days_before_year y = (y - 1) * 365 + q4 - q100 + q400"
    by (simp only: days_before_year_def Let_def q4_def q100_def q400_def)
  have yl: "year_length y = (if l4 \<and> (\<not> l100 \<or> l400) then 366 else 365)"
    by (simp only: year_length_def is_leap_def l4_def l100_def l400_def)
  show ?thesis
    unfolding lhs rhs yl a b c using i1 i2
    by (cases l4; cases l100; cases l400; simp add: algebra_simps)
qed



lemma days_before_month_Suc:
  "1 \<le> m \<Longrightarrow> days_before_month y (m + 1) = days_before_month y m + days_in_month y m"
  by (simp add: days_before_month_def upto_rec2)



lemma days_before_month_13: "days_before_month y 13 = year_length y"
  by (simp add: days_before_month_def year_length_def days_in_month_def upto_rec1)


lemma days_before_month_1: "days_before_month y 1 = 0"
  by (simp add: days_before_month_def)

lemma days_in_month_ge: "28 \<le> days_in_month y m"
  by (simp add: days_in_month_def)

lemma year_length_ge: "365 \<le> year_length y"
  by (simp add: year_length_def)

lemma days_before_year_mono: "y1 \<le> y2 \<Longrightarrow> days_before_year y1 \<le> days_before_year y2"
proof (induction y2 rule: int_ge_induct)
  case base
  show ?case by simp
next
  case (step i)
  have "days_before_year i \<le> days_before_year (i + 1)"
    using year_length_ge [of i] unfolding days_before_year_Suc by linarith
  with step.IH show ?case by linarith
qed

lemma days_before_year_next: "y1 < y2 \<Longrightarrow> days_before_year y1 + year_length y1 \<le> days_before_year y2"
  using days_before_year_mono [of "y1 + 1" y2] by (simp add: days_before_year_Suc)

lemma days_before_month_mono:
  assumes "1 \<le> m1" and "m1 \<le> m2"
  shows "days_before_month y m1 \<le> days_before_month y m2"
  using assms(2)
proof (induction m2 rule: int_ge_induct)
  case base
  show ?case by simp
next
  case (step i)
  with assms(1) have "1 \<le> i" by linarith
  then have "days_before_month y (i + 1) = days_before_month y i + days_in_month y i"
    by (rule days_before_month_Suc)
  with step.IH days_in_month_ge [of y i] show ?case by linarith
qed

lemma days_before_month_next:
  assumes "1 \<le> m1" "m1 < m2"
  shows "days_before_month y m1 + days_in_month y m1 \<le> days_before_month y m2"
proof -
  have "days_before_month y (m1 + 1) \<le> days_before_month y m2"
    using assms by (intro days_before_month_mono) linarith+
  with days_before_month_Suc [OF assms(1), of y] show ?thesis by linarith
qed

lemma days_before_month_nonneg: "1 \<le> m \<Longrightarrow> 0 \<le> days_before_month y m"
  using days_before_month_mono [of 1 m y] by (simp add: days_before_month_1)

lemma day_of_year_le:
  assumes "valid_date d"
  shows "days_before_month (year d) (month d) + day d \<le> year_length (year d)"
proof -
  from assms have m: "1 \<le> month d" "month d < 13"
    and dd: "day d \<le> days_in_month (year d) (month d)"
    by (simp_all add: valid_date_def)
  from days_before_month_next [OF m, of "year d"] dd show ?thesis
    unfolding days_before_month_13 by linarith
qed

lemma day_of_year_ge:
  assumes "valid_date d"
  shows "1 \<le> days_before_month (year d) (month d) + day d"
proof -
  from assms have "1 \<le> month d" "1 \<le> day d" by (simp_all add: valid_date_def)
  with days_before_month_nonneg [of "month d" "year d"] show ?thesis by linarith
qed

lemma to_ordinal_strict_mono:
  assumes a: "valid_date a" and b: "valid_date b" and less: "date_less a b"
  shows "to_ordinal a < to_ordinal b"
proof -
  consider (y) "year a < year b"
    | (m) "year a = year b" "month a < month b"
    | (d) "year a = year b" "month a = month b" "day a < day b"
    using less by (auto simp: date_less_def)
  then show ?thesis
  proof cases
    case y
    from days_before_year_next [OF y] day_of_year_le [OF a] day_of_year_ge [OF b]
    show ?thesis unfolding to_ordinal_def by linarith
  next
    case m
    from a have "1 \<le> month a" and "day a \<le> days_in_month (year a) (month a)"
      by (simp_all add: valid_date_def)
    moreover from b have "1 \<le> day b" by (simp add: valid_date_def)
    moreover note days_before_month_next [OF \<open>1 \<le> month a\<close> m(2), of "year a"]
    ultimately show ?thesis using m(1) unfolding to_ordinal_def by simp
  next
    case d
    then show ?thesis unfolding to_ordinal_def by simp
  qed
qed



lemma days_before_month_12: "days_before_month y 12 + 31 = year_length y"
proof -
  have "days_before_month y (12 + 1) = days_before_month y 12 + days_in_month y 12"
    by (rule days_before_month_Suc) simp
  then show ?thesis by (simp add: days_before_month_13 days_in_month_def)
qed

lemma next_day_valid:
  assumes "valid_date d"
  shows "valid_date (next_day d)"
proof -
  from assms have m: "1 \<le> month d" "month d \<le> 12" and dd: "1 \<le> day d"
    by (simp_all add: valid_date_def)
  show ?thesis
    using m dd days_in_month_ge [of "year d" "month d + 1"] days_in_month_ge [of "year d + 1" 1]
    by (simp add: next_day_def valid_date_def)
qed

lemma next_day_ordinal:
  assumes "valid_date d"
  shows "to_ordinal (next_day d) = to_ordinal d + 1"
proof -
  from assms have m: "1 \<le> month d" "month d \<le> 12"
    and dd: "1 \<le> day d" "day d \<le> days_in_month (year d) (month d)"
    by (simp_all add: valid_date_def)
  consider (same) "day d < days_in_month (year d) (month d)"
    | (month) "day d = days_in_month (year d) (month d)" "month d < 12"
    | (year) "day d = days_in_month (year d) (month d)" "month d = 12"
    using m dd by linarith
  then show ?thesis
  proof cases
    case same
    then show ?thesis by (simp add: next_day_def to_ordinal_def)
  next
    case month
    then show ?thesis
      using days_before_month_Suc [OF m(1), of "year d"]
      by (simp add: next_day_def to_ordinal_def)
  next
    case year
    then have "day d = 31" by (simp add: days_in_month_def)
    with year show ?thesis
      using days_before_month_12 [of "year d"]
      by (simp add: next_day_def to_ordinal_def days_before_year_Suc days_before_month_1)
  qed
qed

lemma prev_day_valid:
  assumes "valid_date d"
  shows "valid_date (prev_day d)"
proof -
  from assms have m: "1 \<le> month d" "month d \<le> 12"
    and dd: "1 \<le> day d" "day d \<le> days_in_month (year d) (month d)"
    by (simp_all add: valid_date_def)
  show ?thesis
    using m dd days_in_month_ge [of "year d" "month d - 1"]
    by (simp add: prev_day_def valid_date_def days_in_month_def [of "year d - 1" 12])
qed

lemma next_prev_day:
  assumes "valid_date d"
  shows "next_day (prev_day d) = d"
proof -
  from assms have m: "1 \<le> month d" "month d \<le> 12"
    and dd: "1 \<le> day d" "day d \<le> days_in_month (year d) (month d)"
    by (simp_all add: valid_date_def)
  consider (day) "1 < day d" | (month) "day d = 1" "1 < month d" | (year) "day d = 1" "month d = 1"
    using m dd by linarith
  then show ?thesis
  proof cases
    case day
    with dd show ?thesis by (simp add: prev_day_def next_day_def)
  next
    case month
    with m show ?thesis by (cases d) (simp add: prev_day_def next_day_def)
  next
    case year
    then show ?thesis by (cases d) (simp add: prev_day_def next_day_def days_in_month_def)
  qed
qed

lemma prev_day_ordinal:
  assumes "valid_date d"
  shows "to_ordinal (prev_day d) = to_ordinal d - 1"
  using next_day_ordinal [OF prev_day_valid [OF assms]] next_prev_day [OF assms] by simp

lemma date_less_total: "a \<noteq> b \<Longrightarrow> date_less a b \<or> date_less b a"
  by (cases a; cases b) (auto simp: date_less_def)

lemma to_ordinal_inj:
  assumes "valid_date a" "valid_date b" "to_ordinal a = to_ordinal b"
  shows "a = b"
proof (rule ccontr)
  assume "a \<noteq> b"
  then consider "date_less a b" | "date_less b a" using date_less_total by blast
  then show False
    using to_ordinal_strict_mono [of a b] to_ordinal_strict_mono [of b a] assms by cases simp_all
qed

lemma to_ordinal_surj: "\<exists>d. valid_date d \<and> to_ordinal d = n"
proof (induction n rule: int_induct [where k = 1])
  case base
  have "valid_date \<lparr>year = 1, month = 1, day = 1\<rparr>"
    by (simp add: valid_date_def days_in_month_def)
  moreover have "to_ordinal \<lparr>year = 1, month = 1, day = 1\<rparr> = 1"
    by (simp add: to_ordinal_def days_before_year_def days_before_month_1)
  ultimately show ?case by blast
next
  case (step1 i)
  then obtain d where "valid_date d" "to_ordinal d = i" by blast
  then have "valid_date (next_day d) \<and> to_ordinal (next_day d) = i + 1"
    by (simp add: next_day_valid next_day_ordinal)
  then show ?case by blast
next
  case (step2 i)
  then obtain d where "valid_date d" "to_ordinal d = i" by blast
  then have "valid_date (prev_day d) \<and> to_ordinal (prev_day d) = i - 1"
    by (simp add: prev_day_valid prev_day_ordinal)
  then show ?case by blast
qed

lemma to_ordinal_Epoch: "to_ordinal EpochDate = 719163"
  by (simp add: to_ordinal_def EpochDate_def days_before_year_def days_before_month_1)

lemma dateToEpochDays_bij: "bij_betw dateToEpochDays {d. valid_date d} UNIV"
  unfolding bij_betw_def
proof
  show "inj_on dateToEpochDays {d. valid_date d}"
    by (rule inj_onI) (simp add: dateToEpochDays_def to_ordinal_inj)
  show "dateToEpochDays ` {d. valid_date d} = UNIV"
  proof (rule equalityI [OF subset_UNIV], rule subsetI)
    fix n :: int
    obtain d where "valid_date d" "to_ordinal d = n + to_ordinal EpochDate"
      using to_ordinal_surj by blast
    then have "d \<in> {d. valid_date d}" "dateToEpochDays d = n"
      by (simp_all add: dateToEpochDays_def)
    then show "n \<in> dateToEpochDays ` {d. valid_date d}" by blast
  qed
qed

lemma example_1999: "dateToEpochDays \<lparr>year = 1999, month = 9, day = 9\<rparr> = 10843"
proof -
  have "to_ordinal \<lparr>year = 1999, month = 9, day = 9\<rparr> = 730006"
    by (simp add: to_ordinal_def days_before_year_def
        days_before_month_def days_in_month_def is_leap_def upto_rec1)
  then show ?thesis by (simp only: dateToEpochDays_def to_ordinal_Epoch)
qed

lemma dateToEpochDays_less_iff:
  assumes "valid_date a" "valid_date b"
  shows "(dateToEpochDays a < dateToEpochDays b) = date_less a b"
proof
  assume l: "dateToEpochDays a < dateToEpochDays b"
  show "date_less a b"
  proof (rule ccontr)
    assume n: "\<not> date_less a b"
    from l have "a \<noteq> b" by auto
    with n have "date_less b a" using date_less_total by blast
    from to_ordinal_strict_mono [OF assms(2) assms(1) this] l show False
      by (simp add: dateToEpochDays_def)
  qed
next
  assume "date_less a b"
  from to_ordinal_strict_mono [OF assms this] show "dateToEpochDays a < dateToEpochDays b"
    by (simp add: dateToEpochDays_def)
qed

lemma EpochDate_valid: "valid_date EpochDate"
  by (simp add: EpochDate_def valid_date_def days_in_month_def)

text \<open>
  C2. \<open>dateToEpochDays\<close> is exact calendar arithmetic anchored at 1970-01-01: the epoch
  has day count 0, the day after any date has the next day count, a date has a negative
  day count exactly when it lies before the epoch, the dates of the proleptic Gregorian
  calendar and the integers correspond one to one, and 1999-09-09 has day count 10843.
\<close>

theorem dateToEpochDays_exact:
  "dateToEpochDays EpochDate = 0
   \<and> (valid_date d \<longrightarrow>
        valid_date (next_day d) \<and> dateToEpochDays (next_day d) = dateToEpochDays d + 1)
   \<and> (valid_date d \<longrightarrow> (dateToEpochDays d < 0) = date_less d EpochDate)
   \<and> bij_betw dateToEpochDays {c. valid_date c} UNIV
   \<and> dateToEpochDays \<lparr>year = 1999, month = 9, day = 9\<rparr> = 10843"
proof -
  have z: "dateToEpochDays EpochDate = 0"
    by (simp add: dateToEpochDays_def)
  have n: "valid_date (next_day d) \<and> dateToEpochDays (next_day d) = dateToEpochDays d + 1"
    if "valid_date d"
    using that by (simp add: next_day_valid next_day_ordinal dateToEpochDays_def)
  have s: "(dateToEpochDays d < 0) = date_less d EpochDate" if "valid_date d"
    using dateToEpochDays_less_iff [OF that EpochDate_valid] z by simp
  from z n s dateToEpochDays_bij example_1999 show ?thesis by blast
qed

theorem dateToEpochDays_exact_witness:
  "valid_date \<lparr>year = 2000, month = 1, day = 1\<rparr>
   \<and> dateToEpochDays \<lparr>year = 2000, month = 1, day = 1\<rparr>
       = dateToEpochDays \<lparr>year = 1999, month = 12, day = 31\<rparr> + 1
   \<and> \<not> dateToEpochDays \<lparr>year = 1999, month = 12, day = 31\<rparr> < 0
   \<and> dateToEpochDays \<lparr>year = 1999, month = 9, day = 9\<rparr> = 10843"
proof -
  have v: "valid_date \<lparr>year = 1999, month = 12, day = 31\<rparr>"
    by (simp add: valid_date_def days_in_month_def)
  have nx: "next_day \<lparr>year = 1999, month = 12, day = 31\<rparr> = \<lparr>year = 2000, month = 1, day = 1\<rparr>"
    by (simp add: next_day_def days_in_month_def)
  have nl: "\<not> date_less \<lparr>year = 1999, month = 12, day = 31\<rparr> EpochDate"
    by (simp add: date_less_def EpochDate_def)
  from dateToEpochDays_exact [of "\<lparr>year = 1999, month = 12, day = 31\<rparr>"] v nx nl
  show ?thesis by simp
qed

end
